theory Spec2Isabelle
  imports Complex_Main "HOL-Library.Sublist" "HOL-Library.AList"
begin

section \<open>Strings\<close>

text \<open>
  Texts are Python \<open>str\<close> values, modelled as \<open>string\<close>. The model covers ASCII
  texts: \<open>str.lower\<close> maps \<open>A\<close>..\<open>Z\<close> to \<open>a\<close>..\<open>z\<close> and leaves every other
  character alone, and \<open>str.strip\<close> removes the ASCII characters for which
  \<open>str.isspace\<close> holds.
\<close>

definition ascii_uppercase :: string where
  "ascii_uppercase = ''ABCDEFGHIJKLMNOPQRSTUVWXYZ''"

definition ascii_lowercase :: string where
  "ascii_lowercase = ''abcdefghijklmnopqrstuvwxyz''"

definition lower_char :: "char \<Rightarrow> char" where
  "lower_char c =
     (case map_of (zip ascii_uppercase ascii_lowercase) c of None \<Rightarrow> c | Some d \<Rightarrow> d)"

definition lower :: "string \<Rightarrow> string" where
  "lower s = map lower_char s"

definition isspace :: "char \<Rightarrow> bool" where
  "isspace c = (c \<in> set [CHR 0x09, CHR 0x0A, CHR 0x0B, CHR 0x0C, CHR 0x0D,
                          CHR 0x1C, CHR 0x1D, CHR 0x1E, CHR 0x1F, CHR '' ''])"

definition strip :: "string \<Rightarrow> string" where
  "strip s = rev (dropWhile isspace (rev (dropWhile isspace s)))"

text \<open>\<open>str_in needle hay\<close> is Python's \<open>needle in hay\<close> on strings.\<close>

fun str_in :: "string \<Rightarrow> string \<Rightarrow> bool" where
  "str_in needle [] = (needle = [])"
| "str_in needle (c # cs) = (prefix needle (c # cs) \<or> str_in needle cs)"

text \<open>
  \<open>list(set(xs))\<close>: the elements of \<open>xs\<close>, each once. The order in which Python
  iterates over a set is not specified; the model fixes one, and the theorems below
  speak of the elements and of their distinctness only.
\<close>

definition list_set :: "'a list \<Rightarrow> 'a list" where
  "list_set xs = remdups xs"

section \<open>detector.py\<close>

definition SCAM_SIGNALS :: "(string \<times> int) list" where
  "SCAM_SIGNALS =
    [(''urgent'', 2), (''urgently'', 2), (''immediately'', 2), (''right now'', 2),
     (''asap'', 2), (''hurry'', 2), (''quick'', 1), (''fast'', 1),
     (''blocked'', 3), (''suspended'', 3), (''locked'', 3), (''frozen'', 3),
     (''account suspended'', 4), (''account blocked'', 4), (''will be blocked'', 3),
     (''will be suspended'', 3),
     (''verify'', 2), (''confirm'', 2), (''update'', 2), (''validate'', 2),
     (''authenticate'', 2), (''reactivate'', 2),
     (''bank'', 1), (''upi'', 3), (''account'', 1), (''payment'', 1),
     (''transaction'', 1), (''refund'', 2), (''pending'', 1), (''debit'', 2),
     (''credit'', 1),
     (''click'', 2), (''click here'', 3), (''tap'', 2), (''download'', 2),
     (''install'', 2), (''share'', 2), (''provide'', 2), (''send'', 2),
     (''otp'', 3), (''password'', 3), (''pin'', 3), (''cvv'', 4),
     (''card number'', 4), (''account number'', 3), (''details'', 1),
     (''bank representative'', 2), (''customer care'', 2), (''support team'', 2),
     (''official'', 1),
     (''lose'', 2), (''lost'', 2), (''expire'', 2), (''expired'', 2),
     (''limited time'', 2), (''deadline'', 2)]"

definition THRESHOLD :: int where
  "THRESHOLD = 4"

text \<open>The loop of \<open>detect_scam_score\<close> over the items of the table.\<close>

fun score_loop :: "(string \<times> int) list \<Rightarrow> string \<Rightarrow> int \<Rightarrow> int" where
  "score_loop [] text_lower score = score"
| "score_loop ((keyword, weight) # rest) text_lower score =
     score_loop rest text_lower
       (if str_in keyword text_lower then score + weight else score)"

definition detect_scam_score :: "string \<Rightarrow> int" where
  "detect_scam_score txt =
     (if txt = [] then 0 else score_loop SCAM_SIGNALS (lower txt) 0)"

definition is_scam :: "string \<Rightarrow> bool" where
  "is_scam txt = (detect_scam_score txt \<ge> THRESHOLD)"

section \<open>extractor.py\<close>

text \<open>
  The regular expressions of the extractor, in the order of the source:
  \<^item> \<open>BankAccountPattern\<close>: 12 to 16 digits between word boundaries;
  \<^item> \<open>UpiPattern\<close>: name, \<open>@\<close>, alphanumeric handle;
  \<^item> \<open>UrlPattern\<close>: \<open>http://\<close> or \<open>https://\<close> up to the next white space;
  \<^item> \<open>PhonePlus91\<close>, \<open>Phone91\<close>, \<open>PhoneTenDigits\<close>: the three phone patterns;
  \<^item> \<open>EmailPattern\<close>.
  Matching is done by the \<open>re\<close> library: \<open>re.findall\<close> is a parameter of the model.
\<close>

datatype pattern =
  BankAccountPattern | UpiPattern | UrlPattern
  | PhonePlus91 | Phone91 | PhoneTenDigits | EmailPattern

type_synonym findall = "pattern \<Rightarrow> string \<Rightarrow> string list"

text \<open>An intelligence dictionary: keys in insertion order, each with its list.\<close>

type_synonym intel_dict = "(string \<times> string list) list"

definition upi_handles :: "string list" where
  "upi_handles = [''@upi'', ''@paytm'', ''@ybl'', ''@oksbi'', ''@okaxis'', ''@okicici'',
                  ''@okhdfcbank'']"

definition phone_patterns :: "pattern list" where
  "phone_patterns = [PhonePlus91, Phone91, PhoneTenDigits]"

definition suspicious_keywords_list :: "string list" where
  "suspicious_keywords_list =
     [''urgent'', ''urgently'', ''verify'', ''blocked'', ''suspended'',
      ''click'', ''otp'', ''password'', ''pin'', ''cvv'', ''account number'',
      ''card number'', ''immediately'', ''expire'', ''frozen'', ''locked'']"

definition extract_intelligence :: "findall \<Rightarrow> string \<Rightarrow> intel_dict" where
  "extract_intelligence re_findall txt =
     (if txt = [] then
        [(''bankAccounts'', []), (''upiIds'', []), (''phishingLinks'', []),
         (''phoneNumbers'', []), (''suspiciousKeywords'', []), (''emailAddresses'', [])]
      else
        let bank_accounts = list_set (re_findall BankAccountPattern txt);
            upi_ids = list_set (re_findall UpiPattern txt);
            upi_ids = filter (\<lambda>uid. list_ex (\<lambda>handle. str_in handle (lower uid)) upi_handles)
                        upi_ids;
            urls = list_set (re_findall UrlPattern txt);
            phone_numbers = list_set (concat (map (\<lambda>p. re_findall p txt) phone_patterns));
            email_addresses = list_set (re_findall EmailPattern txt);
            text_lower = lower txt;
            found_keywords =
              list_set (filter (\<lambda>kw. str_in kw text_lower) suspicious_keywords_list)
        in [(''bankAccounts'', bank_accounts), (''upiIds'', upi_ids),
            (''phishingLinks'', urls), (''phoneNumbers'', phone_numbers),
            (''suspiciousKeywords'', found_keywords),
            (''emailAddresses'', email_addresses)])"

section \<open>callback.py\<close>

text \<open>What one \<open>requests.post\<close> does: a response with its status code, or an exception.\<close>

datatype post_result = Status int | Timeout | ConnectionError | OtherException

text \<open>
  The loop \<open>for attempt in range(max_retries)\<close>, from attempt number \<open>attempt\<close> on;
  \<open>requests_post i\<close> is what the attempt numbered \<open>i\<close> meets. The result is the
  returned flag and the number of attempts made.
\<close>

fun callback_loop :: "(nat \<Rightarrow> post_result) \<Rightarrow> nat \<Rightarrow> nat \<Rightarrow> bool \<times> nat" where
  "callback_loop requests_post attempt 0 = (False, attempt)"
| "callback_loop requests_post attempt (Suc remaining) =
     (case requests_post attempt of
        Status code \<Rightarrow>
          if code = 200 then (True, Suc attempt)
          else callback_loop requests_post (Suc attempt) remaining
      | Timeout \<Rightarrow> callback_loop requests_post (Suc attempt) remaining
      | ConnectionError \<Rightarrow> callback_loop requests_post (Suc attempt) remaining
      | OtherException \<Rightarrow> callback_loop requests_post (Suc attempt) remaining)"

definition send_final_callback :: "string \<Rightarrow> (nat \<Rightarrow> post_result) \<Rightarrow> int \<Rightarrow> bool \<times> nat" where
  "send_final_callback GUVI_CALLBACK_URL requests_post max_retries =
     (if GUVI_CALLBACK_URL = [] then (False, 0)
      else callback_loop requests_post 0 (nat max_retries))"

section \<open>agent.py\<close>

definition FALLBACK_RESPONSES :: "string list" where
  "FALLBACK_RESPONSES =
     [''I'm not sure I understand. Can you explain what exactly I need to do?'',
      ''This seems urgent. What happens if I don't do this right away?'',
      ''Can you tell me more about why this is happening?'',
      ''I'm a bit confused. Can you walk me through the steps?'',
      ''Is there a number I can call to verify this?'',
      ''What information do you need from me?'',
      ''How did you get my contact information?'',
      ''I want to help, but I'm not sure what to do next.'']"

text \<open>
  What the call \<open>client.models.generate_content\<close> does: it raises, or returns a
  response without usable text, or returns a response with a text.
\<close>

datatype gemini_result = GeminiRaises | GeminiNoText | GeminiText string

datatype py_exception = TypeError

text \<open>
  \<open>history\<close> is \<open>None\<close> when the request carries \<open>conversationHistory: null\<close>
  (the field is \<open>Optional\<close>); then \<open>len(history)\<close> raises before the \<open>try\<close>.
\<close>

definition generate_agent_reply ::
  "bool \<Rightarrow> gemini_result \<Rightarrow> string \<Rightarrow> 'm list option \<Rightarrow> py_exception + string" where
  "generate_agent_reply client generate_content latest_message history =
     (case history of
        None \<Rightarrow> Inl TypeError
      | Some h \<Rightarrow>
          let fallback_index = min (length h) (length FALLBACK_RESPONSES - 1);
              fallback_reply = FALLBACK_RESPONSES ! fallback_index
          in if \<not> client then Inr fallback_reply
             else (case generate_content of
                     GeminiRaises \<Rightarrow> Inr fallback_reply
                   | GeminiNoText \<Rightarrow> Inr fallback_reply
                   | GeminiText t \<Rightarrow>
                       let reply = strip t
                       in if reply \<noteq> [] \<and> length reply > 10 \<and> length reply < 500
                          then Inr reply else Inr fallback_reply))"

section \<open>models.py\<close>

record Message =
  sender :: string
  msg_text :: string
  timestamp :: int

record ChatRequest =
  req_sessionId :: string
  req_message :: Message
  conversationHistory :: "Message list option"

record ChatResponse =
  status :: string
  reply :: string
  resp_scamDetected :: bool
  resp_scamScore :: int
  messageCount :: nat

section \<open>The session dictionary\<close>

text \<open>
  The dictionary \<open>chat\<close> creates and keeps per conversation. An instant is what
  \<open>datetime.utcnow()\<close> reads: a reading of the UTC wall clock with no time zone
  attached, in seconds since 1970-01-01T00:00:00 on that clock, as an exact number
  (\<open>isoformat\<close> and \<open>fromisoformat\<close> carry it unchanged). \<open>lastUpdated\<close> is
  \<open>None\<close> for a dictionary without that key or with a value
  \<open>datetime.fromisoformat\<close> rejects, the two cases \<open>cleanup_old_sessions\<close> provides
  for; \<open>chat\<close> always writes a reading.
\<close>

record session =
  sessionId :: string
  messages :: "Message list"
  scamDetected :: bool
  scamScore :: int
  intel :: intel_dict
  callbackSent :: bool
  createdAt :: rat
  lastUpdated :: "rat option"

section \<open>config.py and the world outside\<close>

text \<open>
  The module-level values fixed when the process starts: the configured secret and
  callback URL, whether a Redis client was set up, whether a Gemini client was.
\<close>

record config =
  API_KEY :: string
  GUVI_CALLBACK_URL :: string
  redis_client :: bool
  client :: bool

text \<open>
  What the calls of one request meet outside the program: the clock, the regular
  expression library, whether the Redis read and the Redis write raise, what Gemini
  answers, and what each HTTP post of the callback meets.
\<close>

record env =
  utcnow :: rat
  findall :: findall
  redis_get_raises :: bool
  redis_setex_raises :: bool
  generate_content :: gemini_result
  post :: "nat \<Rightarrow> post_result"

section \<open>redis_store.py and memory.py\<close>

text \<open>
  The two stores: the contents of the Redis server, and the process-wide dictionary
  \<open>sessions\<close> of memory.py (keys in insertion order).
\<close>

record store =
  redis_db :: "string \<Rightarrow> session option"
  sessions :: "(string \<times> session) list"

definition get_session :: "config \<Rightarrow> env \<Rightarrow> store \<Rightarrow> string \<Rightarrow> session option" where
  "get_session cfg e st session_id =
     (if \<not> redis_client cfg then None
      else if redis_get_raises e then None
      else redis_db st session_id)"

definition save_session :: "config \<Rightarrow> env \<Rightarrow> store \<Rightarrow> string \<Rightarrow> session \<Rightarrow> store \<times> bool" where
  "save_session cfg e st session_id data =
     (if \<not> redis_client cfg then (st, False)
      else if redis_setex_raises e then (st, False)
      else (st\<lparr>redis_db := (redis_db st)(session_id \<mapsto> data)\<rparr>, True))"

text \<open>
  \<open>cleanup_old_sessions\<close> turns both readings into numbers with \<open>.timestamp()\<close>.
  On a datetime with no time zone attached, \<open>.timestamp()\<close> takes the reading for
  local time of the host; what it returns depends on the host's zone, so it is the
  parameter \<open>to_timestamp\<close> of the model.

  The first loop of \<open>cleanup_old_sessions\<close>: the ids to delete. \<open>utcnow_reading\<close>
  is what \<open>datetime.utcnow()\<close> reads when the sweep runs.
\<close>

fun to_delete ::
  "(rat \<Rightarrow> rat) \<Rightarrow> rat \<Rightarrow> int \<Rightarrow> (string \<times> session) list \<Rightarrow> string list" where
  "to_delete to_timestamp utcnow_reading max_age_seconds [] = []"
| "to_delete to_timestamp utcnow_reading max_age_seconds ((session_id, session_data) # rest) =
     (let current_time = to_timestamp utcnow_reading
      in case lastUpdated session_data of
           None \<Rightarrow> to_delete to_timestamp utcnow_reading max_age_seconds rest
         | Some reading \<Rightarrow>
             let last_updated = to_timestamp reading
             in if current_time - last_updated > of_int max_age_seconds
                then session_id # to_delete to_timestamp utcnow_reading max_age_seconds rest
                else to_delete to_timestamp utcnow_reading max_age_seconds rest)"

text \<open>The second loop: \<open>del sessions[session_id]\<close> for each collected id.\<close>

fun delete_all :: "string list \<Rightarrow> (string \<times> session) list \<Rightarrow> (string \<times> session) list" where
  "delete_all [] ss = ss"
| "delete_all (session_id # rest) ss = delete_all rest (AList.delete session_id ss)"

definition cleanup_old_sessions ::
  "(rat \<Rightarrow> rat) \<Rightarrow> rat \<Rightarrow> int \<Rightarrow> (string \<times> session) list \<Rightarrow> (string \<times> session) list"
  where
  "cleanup_old_sessions to_timestamp utcnow_reading max_age_seconds ss =
     (if ss = [] then ss
      else delete_all (to_delete to_timestamp utcnow_reading max_age_seconds ss) ss)"

text \<open>
  \<open>.timestamp()\<close> on a host in the zone CET/CEST, for readings around the change
  of 25 October 2026: a reading before 03:00 of that day is taken for summer time
  (two hours ahead of UTC), a later one for winter time (one hour ahead).
\<close>

definition cet_timestamp :: "rat \<Rightarrow> rat" where
  "cet_timestamp reading =
     (if reading < 1792897200 then reading - 7200 else reading - 3600)"

section \<open>main.py\<close>

datatype http_error = HTTPException int string

text \<open>The payload of the final callback.\<close>

record payload =
  p_sessionId :: string
  p_scamDetected :: bool
  totalMessagesExchanged :: nat
  extractedIntelligence :: intel_dict
  agentNotes :: string
  finalScamScore :: int
  p_timestamp :: rat

text \<open>
  The calls \<open>chat\<close> makes to the components around it, in the order it makes them;
  the trace of a request is the list of these calls.
\<close>

datatype call =
  Call_get_session string
  | Call_detect_scam_score string
  | Call_is_scam string
  | Call_extract_intelligence string
  | Call_generate_agent_reply string
  | Call_send_final_callback payload
  | Call_save_session string session

fun is_callback :: "call \<Rightarrow> bool" where
  "is_callback (Call_send_final_callback p) = True"
| "is_callback c = False"

text \<open>The dictionary built for an id that no store knows.\<close>

definition new_session :: "string \<Rightarrow> rat \<Rightarrow> session" where
  "new_session session_id now =
     \<lparr>sessionId = session_id,
      messages = [],
      scamDetected = False,
      scamScore = 0,
      intel = [(''bankAccounts'', []), (''upiIds'', []), (''phishingLinks'', []),
               (''phoneNumbers'', []), (''suspiciousKeywords'', []),
               (''emailAddresses'', [])],
      callbackSent = False,
      createdAt = now,
      lastUpdated = Some now\<rparr>"

text \<open>
  The loop \<open>for key in intel: if key in session["intel"]: ...\<close> over the items of
  the extracted dictionary; the first argument is \<open>session["intel"]\<close>.
\<close>

fun merge_intel :: "intel_dict \<Rightarrow> intel_dict \<Rightarrow> intel_dict" where
  "merge_intel stored [] = stored"
| "merge_intel stored ((key, extracted) # rest) =
     merge_intel
       (case map_of stored key of
          None \<Rightarrow> stored
        | Some old \<Rightarrow> AList.update key (list_set (old @ extracted)) stored)
       rest"

text \<open>
  The body of \<open>chat\<close> from "Store message" to the returned dictionary, on the session
  \<open>chat\<close> has loaded or created. It yields the session as the body leaves it, the calls
  made, and the response, or the error when \<open>generate_agent_reply\<close> raises (the
  session has then been changed up to that point, and neither the callback nor the
  save is reached).
\<close>

definition handle ::
  "config \<Rightarrow> env \<Rightarrow> ChatRequest \<Rightarrow> session \<Rightarrow> session \<times> call list \<times> (http_error + ChatResponse)"
  where
  "handle cfg e body session0 =
     (let message = req_message body;
          txt = strip (msg_text message);
          session_id = req_sessionId body;
          session1 = session0\<lparr>messages := messages session0 @ [message],
                              lastUpdated := Some (utcnow e)\<rparr>;
          score = detect_scam_score txt;
          session2 = session1\<lparr>scamScore := scamScore session1 + score\<rparr>;
          session3 = (if is_scam txt \<and> \<not> scamDetected session2
                      then session2\<lparr>scamDetected := True\<rparr> else session2);
          extracted = extract_intelligence (findall e) txt;
          session4 = session3\<lparr>intel := merge_intel (intel session3) extracted\<rparr>;
          calls = [Call_detect_scam_score txt, Call_is_scam txt,
                   Call_extract_intelligence txt, Call_generate_agent_reply txt]
      in case generate_agent_reply (client cfg) (generate_content e) txt
                (conversationHistory body) of
           Inl exn \<Rightarrow> (session4, calls, Inl (HTTPException 500 ''Internal server error''))
         | Inr reply_text \<Rightarrow>
             let message_count = length (messages session4);
                 fire = (scamDetected session4 \<and> message_count \<ge> 8
                         \<and> \<not> callbackSent session4);
                 the_payload =
                   \<lparr>p_sessionId = session_id,
                    p_scamDetected = True,
                    totalMessagesExchanged = message_count,
                    extractedIntelligence = intel session4,
                    agentNotes = ''Multi-turn urgency-based financial scam detected'',
                    finalScamScore = scamScore session4,
                    p_timestamp = utcnow e\<rparr>;
                 session5 = (if fire then session4\<lparr>callbackSent := True\<rparr> else session4);
                 calls' = (if fire then calls @ [Call_send_final_callback the_payload]
                           else calls)
             in (session5, calls',
                 Inr \<lparr>status = ''success'',
                      reply = reply_text,
                      resp_scamDetected = scamDetected session5,
                      resp_scamScore = scamScore session5,
                      messageCount = message_count\<rparr>))"

text \<open>
  \<open>chat\<close>: the secret, the text, \<open>get_session(session_id) or
  sessions.get(session_id)\<close>, the body, the save. When the body raises, the changes
  it made so far stay in \<open>sessions\<close> exactly when the dictionary it worked on is the
  one \<open>sessions\<close> holds (it was not read from Redis and not newly created).
\<close>

definition chat ::
  "config \<Rightarrow> store \<Rightarrow> env \<Rightarrow> ChatRequest \<Rightarrow> string option
     \<Rightarrow> store \<times> call list \<times> (http_error + ChatResponse)" where
  "chat cfg st e body x_api_key =
     (if x_api_key \<noteq> Some (API_KEY cfg)
      then (st, [], Inl (HTTPException 401 ''Invalid API Key''))
      else if strip (msg_text (req_message body)) = []
      then (st, [], Inl (HTTPException 400 ''Message text is required''))
      else
        let session_id = req_sessionId body;
            from_redis = get_session cfg e st session_id;
            from_memory = (case from_redis of
                             Some s \<Rightarrow> None
                           | None \<Rightarrow> map_of (sessions st) session_id);
            session0 = (case from_redis of
                          Some s \<Rightarrow> s
                        | None \<Rightarrow> (case from_memory of
                                     Some s \<Rightarrow> s
                                   | None \<Rightarrow> new_session session_id (utcnow e)))
        in case handle cfg e body session0 of
             (session', calls, Inl err) \<Rightarrow>
               ((if from_memory \<noteq> None
                 then st\<lparr>sessions := AList.update session_id session' (sessions st)\<rparr>
                 else st),
                Call_get_session session_id # calls, Inl err)
           | (session', calls, Inr response) \<Rightarrow>
               let st1 = fst (save_session cfg e st session_id session');
                   st2 = st1\<lparr>sessions := AList.update session_id session' (sessions st1)\<rparr>
               in (st2,
                   Call_get_session session_id # calls
                     @ [Call_save_session session_id session'],
                   Inr response))"

text \<open>
  The life of a session: the messages handled on it, one after the other, each on the
  state its predecessor left. A step carries what the request meets outside, the
  request, and whether the handler worked on the dictionary \<open>sessions\<close> holds; a
  request that raises on any other dictionary leaves the session as it was.
\<close>

fun life ::
  "config \<Rightarrow> session \<Rightarrow> (env \<times> ChatRequest \<times> bool) list \<Rightarrow> session \<times> call list" where
  "life cfg s [] = (s, [])"
| "life cfg s ((e, body, in_process) # rest) =
     (case handle cfg e body s of
        (s', calls, result) \<Rightarrow>
          (case life cfg (if isl result \<and> \<not> in_process then s else s') rest of
             (s'', calls') \<Rightarrow> (s'', calls @ calls')))"

text \<open>
  The server at work: requests handled one after the other by \<open>chat\<close>, each on the
  stores its predecessor left. A request comes with what it meets outside and with its
  \<open>x-api-key\<close> header; the result is the stores at the end and, per request, the
  calls made and the answer.
\<close>

fun serve ::
  "config \<Rightarrow> store \<Rightarrow> (env \<times> ChatRequest \<times> string option) list
     \<Rightarrow> store \<times> (call list \<times> (http_error + ChatResponse)) list" where
  "serve cfg st [] = (st, [])"
| "serve cfg st ((e, body, x_api_key) # rest) =
     (case chat cfg st e body x_api_key of
        (st', calls, result) \<Rightarrow>
          (case serve cfg st' rest of
             (st'', outs) \<Rightarrow> (st'', (calls, result) # outs)))"

text \<open>
  What is read off a run: the number of \<open>send_final_callback\<close> calls of a request,
  the \<open>scamDetected\<close> of its answer, and the flags and an intelligence list of the
  dictionary that \<open>sessions\<close> holds for an id.
\<close>

definition callbacks :: "call list \<times> (http_error + ChatResponse) \<Rightarrow> nat" where
  "callbacks out = length (filter is_callback (fst out))"

definition answered_scamDetected :: "call list \<times> (http_error + ChatResponse) \<Rightarrow> bool option" where
  "answered_scamDetected out =
     (case snd out of Inl err \<Rightarrow> None | Inr response \<Rightarrow> Some (resp_scamDetected response))"

definition flags_of :: "store \<Rightarrow> string \<Rightarrow> (bool \<times> bool) option" where
  "flags_of st session_id =
     map_option (\<lambda>s. (scamDetected s, callbackSent s)) (map_of (sessions st) session_id)"

definition field_of :: "store \<Rightarrow> string \<Rightarrow> string \<Rightarrow> string list option" where
  "field_of st session_id k =
     (case map_of (sessions st) session_id of
        None \<Rightarrow> None
      | Some s \<Rightarrow> map_of (intel s) k)"

section \<open>Notions of the specification\<close>

text \<open>
  The idle time of a stored session when the UTC clock reads \<open>utcnow_reading\<close>:
  the seconds elapsed since the \<open>lastUpdated\<close> reading (UTC has no clock changes,
  so the difference of two readings is the time elapsed); defined when the dictionary
  has a readable \<open>lastUpdated\<close>.
\<close>

definition idle_time :: "rat \<Rightarrow> session \<Rightarrow> rat option" where
  "idle_time utcnow_reading s =
     (case lastUpdated s of
        None \<Rightarrow> None
      | Some reading \<Rightarrow> Some (utcnow_reading - reading))"

text \<open>
  The score as the specification words it: the sum of the weights of the entries of
  the keyword table whose key occurs, case-insensitively, as a substring of the text,
  each entry counted once.
\<close>

definition spec_score :: "string \<Rightarrow> int" where
  "spec_score txt =
     sum snd {entry \<in> set SCAM_SIGNALS. str_in (lower (fst entry)) (lower txt)}"

text \<open>
  The session a request works on: \<open>get_session(session_id) or
  sessions.get(session_id)\<close>, or the new dictionary when no store knows the id.
\<close>

definition load_session :: "config \<Rightarrow> env \<Rightarrow> store \<Rightarrow> string \<Rightarrow> session" where
  "load_session cfg e st session_id =
     (case get_session cfg e st session_id of
        Some s \<Rightarrow> s
      | None \<Rightarrow> (case map_of (sessions st) session_id of
                   Some s \<Rightarrow> s
                 | None \<Rightarrow> new_session session_id (utcnow e)))"

text \<open>The six field names of an intelligence dictionary.\<close>

definition intel_fields :: "string list" where
  "intel_fields = [''bankAccounts'', ''upiIds'', ''phishingLinks'', ''phoneNumbers'',
                   ''suspiciousKeywords'', ''emailAddresses'']"

text \<open>
  What the extractor finds for one field in the message of a request, and whether a
  step of a session's life leaves its changes on the session (it does unless the
  request raises on a dictionary that is not the one \<open>sessions\<close> holds).
\<close>

definition extracted_field :: "string \<Rightarrow> env \<Rightarrow> ChatRequest \<Rightarrow> string list" where
  "extracted_field k e body =
     (case map_of (extract_intelligence (findall e) (strip (msg_text (req_message body)))) k of
        None \<Rightarrow> []
      | Some found \<Rightarrow> found)"

fun merged :: "env \<times> ChatRequest \<times> bool \<Rightarrow> bool" where
  "merged (e, body, in_process) = (conversationHistory body \<noteq> None \<or> in_process)"

fun seen :: "string \<Rightarrow> (env \<times> ChatRequest \<times> bool) list \<Rightarrow> string set" where
  "seen k [] = {}"
| "seen k ((e, body, in_process) # rest) =
     (if merged (e, body, in_process) then set (extracted_field k e body) else {})
       \<union> seen k rest"

section \<open>Example values\<close>

text \<open>
  A configuration without Redis and without Gemini, a world in which the regular
  expressions find nothing and every post is answered with status 200, and a request
  of the session \<open>s1\<close> with a given text.
\<close>

definition example_config :: config where
  "example_config =
     \<lparr>API_KEY = ''secret'', GUVI_CALLBACK_URL = ''https://collector'',
      redis_client = False, client = False\<rparr>"

definition example_env :: env where
  "example_env =
     \<lparr>utcnow = 1792845000, findall = (\<lambda>p t. []),
      redis_get_raises = False, redis_setex_raises = False,
      generate_content = GeminiNoText, post = (\<lambda>i. Status 200)\<rparr>"

definition example_request :: "string \<Rightarrow> ChatRequest" where
  "example_request txt =
     \<lparr>req_sessionId = ''s1'',
      req_message = \<lparr>sender = ''scammer'', msg_text = txt, timestamp = 1704067200\<rparr>,
      conversationHistory = Some []\<rparr>"

text \<open>
  The same configuration with a Redis client, the stores of a process that has just
  started next to an empty Redis, and a request sent while Redis takes writes and
  while \<open>setex\<close> raises.
\<close>

definition redis_config :: config where
  "redis_config = example_config\<lparr>redis_client := True\<rparr>"

definition empty_store :: store where
  "empty_store = \<lparr>redis_db = (\<lambda>session_id. None), sessions = []\<rparr>"

definition sent :: "string \<Rightarrow> env \<times> ChatRequest \<times> string option" where
  "sent txt = (example_env, example_request txt, Some ''secret'')"

definition sent_while_setex_raises :: "string \<Rightarrow> env \<times> ChatRequest \<times> string option" where
  "sent_while_setex_raises txt =
     (example_env\<lparr>redis_setex_raises := True\<rparr>, example_request txt, Some ''secret'')"

section \<open>The scorer\<close>

lemma str_in_sublist: "str_in needle hay \<longleftrightarrow> sublist needle hay"
  by (induction hay) (auto simp: sublist_Cons_right)

lemma score_loop_sum:
  "score_loop tbl u acc = acc + sum_list (map snd (filter (\<lambda>entry. str_in (fst entry) u) tbl))"
  by (induction tbl u acc rule: score_loop.induct) auto

lemma distinct_SCAM_SIGNALS: "distinct SCAM_SIGNALS"
  by (simp add: SCAM_SIGNALS_def)

lemma keys_lower: "\<forall>entry \<in> set SCAM_SIGNALS. lower (fst entry) = fst entry"
  by (simp add: SCAM_SIGNALS_def lower_def lower_char_def ascii_uppercase_def ascii_lowercase_def)

lemma keys_shape:
  "\<forall>entry \<in> set SCAM_SIGNALS.
     fst entry \<noteq> [] \<and> \<not> isspace (hd (fst entry)) \<and> \<not> isspace (last (fst entry))"
  by (simp add: SCAM_SIGNALS_def isspace_def)

lemma isspace_lower_char: "isspace (lower_char c) = isspace c"
  by (simp add: lower_char_def isspace_def ascii_uppercase_def ascii_lowercase_def)

lemma lower_dropWhile: "lower (dropWhile isspace xs) = dropWhile isspace (lower xs)"
  by (induction xs) (simp_all add: lower_def isspace_lower_char)

text \<open>
  Stripping does not change the score: no keyword of the table begins or ends with
  white space.
\<close>

lemma lower_strip: "lower (strip t) = strip (lower t)"
proof -
  have "lower (rev xs) = rev (lower xs)" for xs
    by (simp add: lower_def rev_map)
  then show ?thesis
    by (simp add: strip_def lower_dropWhile)
qed

lemma sublist_dropWhile_keep:
  assumes "k \<noteq> []" "\<not> P (hd k)" "sublist k u"
  shows "sublist k (dropWhile P u)"
proof -
  from assms(3) obtain ps ss where u: "u = ps @ k @ ss"
    by (auto simp: sublist_def)
  have "sublist k (dropWhile P (ps @ k @ ss))"
  proof (induction ps)
    case Nil
    from assms(1,2) have "dropWhile P (k @ ss) = k @ ss"
      by (cases k) simp_all
    then show ?case by simp
  next
    case (Cons p ps)
    show ?case
    proof (cases "P p")
      case True
      with Cons show ?thesis by simp
    next
      case False
      have "sublist k ((p # ps) @ k @ ss)"
        unfolding sublist_def by blast
      with False show ?thesis by simp
    qed
  qed
  with u show ?thesis by simp
qed

lemma sublist_strip:
  assumes "k \<noteq> []" "\<not> isspace (hd k)" "\<not> isspace (last k)"
  shows "sublist k (strip u) \<longleftrightarrow> sublist k u"
proof
  assume "sublist k (strip u)"
  moreover have "sublist (strip u) u"
  proof -
    have "sublist (rev (strip u)) (rev (dropWhile isspace u))"
      by (simp add: strip_def sublist_dropWhile)
    then have "sublist (strip u) (dropWhile isspace u)"
      by (simp only: sublist_rev)
    then show ?thesis
      using sublist_dropWhile sublist_order.order_trans by blast
  qed
  ultimately show "sublist k u"
    using sublist_order.order_trans by blast
next
  assume "sublist k u"
  with assms have 1: "sublist k (dropWhile isspace u)"
    by (simp add: sublist_dropWhile_keep)
  from assms have "rev k \<noteq> []" "\<not> isspace (hd (rev k))"
    by (simp_all add: hd_rev)
  moreover from 1 have "sublist (rev k) (rev (dropWhile isspace u))"
    by (simp add: sublist_rev)
  ultimately have "sublist (rev k) (dropWhile isspace (rev (dropWhile isspace u)))"
    by (rule sublist_dropWhile_keep)
  then have "sublist (rev (rev k)) (rev (dropWhile isspace (rev (dropWhile isspace u))))"
    by (simp only: sublist_rev)
  then show "sublist k (strip u)"
    by (simp add: strip_def)
qed

lemma keyword_in_strip:
  assumes "entry \<in> set SCAM_SIGNALS"
  shows "str_in (fst entry) (lower (strip t)) \<longleftrightarrow> str_in (fst entry) (lower t)"
  using keys_shape assms by (simp add: str_in_sublist lower_strip sublist_strip)

lemma score_loop_cong:
  assumes "\<And>entry. entry \<in> set tbl \<Longrightarrow> str_in (fst entry) u = str_in (fst entry) v"
  shows "score_loop tbl u acc = score_loop tbl v acc"
proof -
  have "filter (\<lambda>entry. str_in (fst entry) u) tbl = filter (\<lambda>entry. str_in (fst entry) v) tbl"
    using assms by (auto intro: filter_cong)
  then show ?thesis by (simp add: score_loop_sum)
qed

lemma score_loop_none:
  assumes "\<And>entry. entry \<in> set tbl \<Longrightarrow> \<not> str_in (fst entry) u"
  shows "score_loop tbl u acc = acc"
proof -
  have "filter (\<lambda>entry. str_in (fst entry) u) tbl = []"
    using assms by (auto simp: filter_empty_conv)
  then show ?thesis by (simp add: score_loop_sum)
qed

lemma detect_scam_score_strip: "detect_scam_score (strip t) = detect_scam_score t"
proof (cases "strip t = []")
  case True
  have "\<not> str_in (fst entry) (lower t)" if "entry \<in> set SCAM_SIGNALS" for entry
  proof -
    from keys_shape that have "fst entry \<noteq> []" by blast
    then have "\<not> str_in (fst entry) (lower (strip t))"
      using True by (simp add: lower_def)
    with that show ?thesis by (simp add: keyword_in_strip)
  qed
  then have "score_loop SCAM_SIGNALS (lower t) 0 = 0"
    by (rule score_loop_none)
  with True show ?thesis by (simp add: detect_scam_score_def)
next
  case False
  then have "t \<noteq> []" by (auto simp: strip_def)
  moreover have "score_loop SCAM_SIGNALS (lower (strip t)) 0 = score_loop SCAM_SIGNALS (lower t) 0"
    by (rule score_loop_cong) (simp add: keyword_in_strip)
  ultimately show ?thesis using False by (simp add: detect_scam_score_def)
qed

text \<open>The score of the code is the score as the specification words it.\<close>

lemma detect_scam_score_spec: "detect_scam_score txt = spec_score txt"
proof -
  let ?P = "\<lambda>entry. str_in (fst entry) (lower txt)"
  have eq: "{entry \<in> set SCAM_SIGNALS. str_in (lower (fst entry)) (lower txt)}
            = set (filter ?P SCAM_SIGNALS)"
    using keys_lower by auto
  have sum: "sum_list (map snd (filter ?P SCAM_SIGNALS)) = sum snd (set (filter ?P SCAM_SIGNALS))"
    by (rule sum_list_distinct_conv_sum_set) (simp add: distinct_SCAM_SIGNALS)
  show ?thesis
  proof (cases "txt = []")
    case True
    have none: "\<not> ?P entry" if "entry \<in> set SCAM_SIGNALS" for entry
      using keys_shape that True by (auto simp: lower_def)
    have "set (filter ?P SCAM_SIGNALS) = {}"
      using none by (auto simp: filter_empty_conv)
    then have "{entry \<in> set SCAM_SIGNALS. str_in (lower (fst entry)) (lower txt)} = {}"
      by (simp only: eq)
    then have "spec_score txt = 0"
      by (simp only: spec_score_def sum.empty)
    with True show ?thesis
      by (simp add: detect_scam_score_def)
  next
    case False
    with eq sum show ?thesis
      by (simp add: detect_scam_score_def spec_score_def score_loop_sum)
  qed
qed

lemma handle_scamDetected:
  "scamDetected (fst (handle cfg e body s))
     \<longleftrightarrow> scamDetected s \<or> THRESHOLD \<le> detect_scam_score (msg_text (req_message body))"
  by (simp add: handle_def Let_def is_scam_def detect_scam_score_strip
           split: sum.splits)

section \<open>The handler and the stores\<close>

text \<open>
  A request with a conversation history is answered; one without (\<open>null\<close>) ends
  in the internal error.
\<close>

lemma handle_response:
  "conversationHistory body = Some h \<Longrightarrow>
     \<exists>r. snd (snd (handle cfg e body s)) = Inr r
       \<and> status r = ''success''
       \<and> resp_scamDetected r = scamDetected (fst (handle cfg e body s))
       \<and> resp_scamScore r = scamScore (fst (handle cfg e body s))
       \<and> messageCount r = length (messages (fst (handle cfg e body s)))"
  by (simp add: handle_def Let_def generate_agent_reply_def split: gemini_result.splits)

lemma handle_error:
  "conversationHistory body = None \<Longrightarrow>
     snd (snd (handle cfg e body s)) = Inl (HTTPException 500 ''Internal server error'')"
  by (simp add: handle_def Let_def generate_agent_reply_def)

text \<open>
  A request with the right secret and a text that is not blank: \<open>chat\<close> runs the
  body on the loaded session; its response and its callback are those of the body, and
  the session the body leaves is the one \<open>sessions\<close> holds afterwards.
\<close>

lemma chat_valid_unfold:
  assumes "x_api_key = Some (API_KEY cfg)" "strip (msg_text (req_message body)) \<noteq> []"
  shows "chat cfg st e body x_api_key =
           (case handle cfg e body (load_session cfg e st (req_sessionId body)) of
              (s', calls, Inl err) \<Rightarrow>
                ((if get_session cfg e st (req_sessionId body) = None
                     \<and> map_of (sessions st) (req_sessionId body) \<noteq> None
                  then st\<lparr>sessions := AList.update (req_sessionId body) s' (sessions st)\<rparr>
                  else st),
                 Call_get_session (req_sessionId body) # calls, Inl err)
            | (s', calls, Inr response) \<Rightarrow>
                ((fst (save_session cfg e st (req_sessionId body) s'))
                   \<lparr>sessions := AList.update (req_sessionId body) s'
                      (sessions (fst (save_session cfg e st (req_sessionId body) s')))\<rparr>,
                 Call_get_session (req_sessionId body) # calls
                   @ [Call_save_session (req_sessionId body) s'],
                 Inr response))"
proof (cases "get_session cfg e st (req_sessionId body)")
  case None
  then show ?thesis
    using assms
    by (cases "map_of (sessions st) (req_sessionId body)")
       (simp_all add: chat_def load_session_def Let_def split: prod.splits sum.splits)
next
  case (Some s)
  then show ?thesis
    using assms
    by (simp add: chat_def load_session_def Let_def split: prod.splits sum.splits)
qed

lemma sessions_save_session:
  "sessions (fst (save_session cfg e st session_id data)) = sessions st"
  by (simp add: save_session_def)

lemma chat_accepted:
  assumes "x_api_key = Some (API_KEY cfg)" "strip (msg_text (req_message body)) \<noteq> []"
  shows "snd (snd (chat cfg st e body x_api_key))
           = snd (snd (handle cfg e body (load_session cfg e st (req_sessionId body))))"
    and "filter is_callback (fst (snd (chat cfg st e body x_api_key)))
           = filter is_callback
               (fst (snd (handle cfg e body (load_session cfg e st (req_sessionId body)))))"
    and "conversationHistory body \<noteq> None \<Longrightarrow>
           map_of (sessions (fst (chat cfg st e body x_api_key))) (req_sessionId body)
             = Some (fst (handle cfg e body (load_session cfg e st (req_sessionId body))))"
proof -
  obtain s' calls r
    where h: "handle cfg e body (load_session cfg e st (req_sessionId body)) = (s', calls, r)"
    by (cases "handle cfg e body (load_session cfg e st (req_sessionId body))")
  note u = chat_valid_unfold [OF assms, of st e]
  show "snd (snd (chat cfg st e body x_api_key))
          = snd (snd (handle cfg e body (load_session cfg e st (req_sessionId body))))"
    by (cases r) (simp_all add: u h)
  show "filter is_callback (fst (snd (chat cfg st e body x_api_key)))
          = filter is_callback
              (fst (snd (handle cfg e body (load_session cfg e st (req_sessionId body)))))"
    by (cases r) (simp_all add: u h)
  show "map_of (sessions (fst (chat cfg st e body x_api_key))) (req_sessionId body)
          = Some (fst (handle cfg e body (load_session cfg e st (req_sessionId body))))"
    if "conversationHistory body \<noteq> None"
  proof -
    from that obtain hist where "conversationHistory body = Some hist" by auto
    from handle_response [OF this, of cfg e "load_session cfg e st (req_sessionId body)"] h
    obtain resp where "r = Inr resp" by auto
    then show ?thesis
      by (simp add: u h update_conv sessions_save_session)
  qed
qed

section \<open>The score of a message\<close>

text \<open>
  Claim C9. For every text, \<open>detect_scam_score\<close> is the sum of the weights of the
  entries of the keyword table whose key occurs, case-insensitively, as a substring of
  the text, each entry counted once. For a text in which no key of the table occurs
  the score is 0, and handling a message with that text leaves \<open>scamDetected\<close>
  false on a session where it was false.
\<close>

theorem detect_scam_score_weighted_sum:
  "detect_scam_score txt = spec_score txt
   \<and> ((\<forall>entry \<in> set SCAM_SIGNALS. \<not> str_in (lower (fst entry)) (lower txt)) \<longrightarrow>
        detect_scam_score txt = 0
        \<and> (\<forall>cfg e body s. msg_text (req_message body) = txt \<and> \<not> scamDetected s
              \<longrightarrow> \<not> scamDetected (fst (handle cfg e body s))))"
proof (intro conjI impI)
  show "detect_scam_score txt = spec_score txt"
    by (rule detect_scam_score_spec)
next
  assume none: "\<forall>entry \<in> set SCAM_SIGNALS. \<not> str_in (lower (fst entry)) (lower txt)"
  then have "{entry \<in> set SCAM_SIGNALS. str_in (lower (fst entry)) (lower txt)} = {}"
    by blast
  then have "spec_score txt = 0"
    by (simp only: spec_score_def sum.empty)
  then show zero: "detect_scam_score txt = 0"
    by (simp only: detect_scam_score_spec)
  show "\<forall>cfg e body s. msg_text (req_message body) = txt \<and> \<not> scamDetected s
          \<longrightarrow> \<not> scamDetected (fst (handle cfg e body s))"
    using zero by (simp add: handle_scamDetected THRESHOLD_def)
qed

theorem detect_scam_score_weighted_sum_witness:
  "filter (\<lambda>entry. str_in (lower (fst entry)) (lower ''Hello, how are you?'')) SCAM_SIGNALS = []
   \<and> msg_text (req_message (example_request ''Hello, how are you?'')) = ''Hello, how are you?''
   \<and> \<not> scamDetected (new_session ''s1'' 1792845000)
   \<and> detect_scam_score ''Hello, how are you?'' = 0
   \<and> spec_score ''Hello, how are you?'' = 0
   \<and> \<not> scamDetected (fst (handle example_config example_env
                              (example_request ''Hello, how are you?'')
                              (new_session ''s1'' 1792845000)))"
proof -
  have empty: "filter (\<lambda>entry. str_in (lower (fst entry)) (lower ''Hello, how are you?''))
                 SCAM_SIGNALS = []"
    by code_simp
  then have none: "\<forall>entry \<in> set SCAM_SIGNALS.
                     \<not> str_in (lower (fst entry)) (lower ''Hello, how are you?'')"
    by (simp only: filter_empty_conv)
  have msg: "msg_text (req_message (example_request ''Hello, how are you?''))
               = ''Hello, how are you?''"
    by (simp add: example_request_def)
  have fresh: "\<not> scamDetected (new_session ''s1'' 1792845000)"
    by (simp add: new_session_def)
  note inst = detect_scam_score_weighted_sum [of "''Hello, how are you?''"]
  from inst none have zero: "detect_scam_score ''Hello, how are you?'' = 0" by blast
  from inst zero have spec: "spec_score ''Hello, how are you?'' = 0" by simp
  from inst none msg fresh
  have "\<not> scamDetected (fst (handle example_config example_env
                              (example_request ''Hello, how are you?'')
                              (new_session ''s1'' 1792845000)))"
    by blast
  with empty msg fresh zero spec show ?thesis by blast
qed

section \<open>The detection latch\<close>

text \<open>
  Claim C2. The threshold is 4. Handling a message whose own score is at least 4 sets
  \<open>scamDetected\<close>, whatever the session's state and cumulative score; handling a
  message whose own score is below 4 leaves \<open>scamDetected\<close> as it was, however large
  the cumulative score. For a request that \<open>chat\<close> accepts, the session \<open>sessions\<close>
  holds afterwards and the response carry the flag: it is set exactly when it was set
  on the loaded session or the message's own score is at least 4.
\<close>

theorem scam_latch_per_message:
  "THRESHOLD = 4
   \<and> (detect_scam_score (msg_text (req_message body)) \<ge> 4
        \<longrightarrow> scamDetected (fst (handle cfg e body s)))
   \<and> (detect_scam_score (msg_text (req_message body)) < 4
        \<longrightarrow> scamDetected (fst (handle cfg e body s)) = scamDetected s)
   \<and> (x_api_key = Some (API_KEY cfg) \<and> strip (msg_text (req_message body)) \<noteq> []
        \<and> conversationHistory body \<noteq> None
        \<longrightarrow> (\<exists>s' r. map_of (sessions (fst (chat cfg st e body x_api_key))) (req_sessionId body)
                        = Some s'
                    \<and> snd (snd (chat cfg st e body x_api_key)) = Inr r
                    \<and> resp_scamDetected r = scamDetected s'
                    \<and> (scamDetected s' \<longleftrightarrow>
                          scamDetected (load_session cfg e st (req_sessionId body))
                          \<or> detect_scam_score (msg_text (req_message body)) \<ge> 4)))"
proof (intro conjI impI)
  show "THRESHOLD = 4" by (simp add: THRESHOLD_def)
  show "scamDetected (fst (handle cfg e body s))"
    if "detect_scam_score (msg_text (req_message body)) \<ge> 4"
    using that by (simp add: handle_scamDetected THRESHOLD_def)
  show "scamDetected (fst (handle cfg e body s)) = scamDetected s"
    if "detect_scam_score (msg_text (req_message body)) < 4"
    using that by (simp add: handle_scamDetected THRESHOLD_def)
next
  assume a: "x_api_key = Some (API_KEY cfg) \<and> strip (msg_text (req_message body)) \<noteq> []
             \<and> conversationHistory body \<noteq> None"
  let ?s0 = "load_session cfg e st (req_sessionId body)"
  from a obtain h where h: "conversationHistory body = Some h" by auto
  from handle_response [OF h, of cfg e ?s0]
  obtain r where r: "snd (snd (handle cfg e body ?s0)) = Inr r"
    "resp_scamDetected r = scamDetected (fst (handle cfg e body ?s0))" by blast
  from a have key: "x_api_key = Some (API_KEY cfg)"
    and nonblank: "strip (msg_text (req_message body)) \<noteq> []"
    and hist: "conversationHistory body \<noteq> None" by simp_all
  have 1: "map_of (sessions (fst (chat cfg st e body x_api_key))) (req_sessionId body)
             = Some (fst (handle cfg e body ?s0))"
    by (rule chat_accepted(3) [OF key nonblank hist])
  have 2: "snd (snd (chat cfg st e body x_api_key)) = Inr r"
    using chat_accepted(1) [OF key nonblank, of st e] r(1) by simp
  have 3: "scamDetected (fst (handle cfg e body ?s0)) \<longleftrightarrow>
             scamDetected ?s0 \<or> detect_scam_score (msg_text (req_message body)) \<ge> 4"
    by (simp add: handle_scamDetected THRESHOLD_def)
  from 1 2 3 r(2)
  show "\<exists>s' r. map_of (sessions (fst (chat cfg st e body x_api_key))) (req_sessionId body)
                  = Some s'
              \<and> snd (snd (chat cfg st e body x_api_key)) = Inr r
              \<and> resp_scamDetected r = scamDetected s'
              \<and> (scamDetected s' \<longleftrightarrow>
                    scamDetected (load_session cfg e st (req_sessionId body))
                    \<or> detect_scam_score (msg_text (req_message body)) \<ge> 4)"
    by blast
qed

theorem scam_latch_per_message_witness:
  "detect_scam_score (msg_text (req_message (example_request
       ''Your account has been blocked. Click here to verify immediately!''))) \<ge> 4
   \<and> \<not> scamDetected (new_session ''s1'' 1792845000)
   \<and> scamDetected (fst (handle example_config example_env
        (example_request ''Your account has been blocked. Click here to verify immediately!'')
        (new_session ''s1'' 1792845000)))
   \<and> detect_scam_score (msg_text (req_message (example_request ''Please send it''))) < 4
   \<and> \<not> scamDetected (fst (handle example_config example_env
        (example_request ''Please send it'')
        ((new_session ''s1'' 1792845000)\<lparr>scamScore := 1000\<rparr>)))"
proof -
  have hi: "detect_scam_score (msg_text (req_message (example_request
       ''Your account has been blocked. Click here to verify immediately!''))) \<ge> 4"
    by code_simp
  have lo: "detect_scam_score (msg_text (req_message (example_request ''Please send it''))) < 4"
    by code_simp
  have fresh: "\<not> scamDetected (new_session ''s1'' 1792845000)"
    "\<not> scamDetected ((new_session ''s1'' 1792845000)\<lparr>scamScore := 1000\<rparr>)"
    by (simp_all add: new_session_def)
  from scam_latch_per_message
         [of "example_request ''Your account has been blocked. Click here to verify immediately!''"
             example_config example_env "new_session ''s1'' 1792845000"] hi
  have a: "scamDetected (fst (handle example_config example_env
        (example_request ''Your account has been blocked. Click here to verify immediately!'')
        (new_session ''s1'' 1792845000)))" by blast
  from scam_latch_per_message
         [of "example_request ''Please send it''"
             example_config example_env "(new_session ''s1'' 1792845000)\<lparr>scamScore := 1000\<rparr>"]
       lo fresh(2)
  have b: "\<not> scamDetected (fst (handle example_config example_env
        (example_request ''Please send it'')
        ((new_session ''s1'' 1792845000)\<lparr>scamScore := 1000\<rparr>)))" by blast
  from hi lo fresh a b show ?thesis by blast
qed

section \<open>Merging intelligence\<close>

text \<open>
  The merge keeps the keys of the stored dictionary, and each stored list becomes the
  deduplicated concatenation of itself and the extracted list of the same key.
\<close>

lemma map_fst_merge_intel: "map fst (merge_intel stored ext) = map fst stored"
proof (induction ext arbitrary: stored)
  case Nil
  then show ?case by simp
next
  case (Cons kv ext)
  obtain key vals where kv: "kv = (key, vals)" by (cases kv)
  show ?case
  proof (cases "map_of stored key")
    case None
    with Cons kv show ?thesis by simp
  next
    case (Some old)
    then have "key \<in> fst ` set stored"
      using map_of_eq_None_iff [of stored key] by auto
    then have "map fst (AList.update key (list_set (old @ vals)) stored) = map fst stored"
      by (simp add: update_keys)
    with Cons Some kv show ?thesis by simp
  qed
qed

lemma map_of_merge_intel:
  assumes "distinct (map fst ext)"
  shows "map_of (merge_intel stored ext) k =
           (case map_of stored k of
              None \<Rightarrow> None
            | Some old \<Rightarrow> (case map_of ext k of
                            None \<Rightarrow> Some old
                          | Some new \<Rightarrow> Some (list_set (old @ new))))"
  using assms
proof (induction ext arbitrary: stored)
  case Nil
  then show ?case by (simp split: option.splits)
next
  case (Cons kv ext)
  obtain key vals where kv: "kv = (key, vals)" by (cases kv)
  from Cons.prems kv have d: "distinct (map fst ext)" and notin: "key \<notin> fst ` set ext"
    by auto
  from notin have none: "map_of ext key = None"
    by (simp add: map_of_eq_None_iff)
  let ?stored' = "case map_of stored key of
                    None \<Rightarrow> stored
                  | Some old \<Rightarrow> AList.update key (list_set (old @ vals)) stored"
  have step: "map_of (merge_intel stored (kv # ext)) k = map_of (merge_intel ?stored' ext) k"
    by (simp add: kv)
  show ?case
  proof (cases "k = key")
    case True
    show ?thesis
      unfolding step Cons.IH [OF d]
      using True none kv by (simp add: update_conv split: option.splits)
  next
    case False
    show ?thesis
      unfolding step Cons.IH [OF d]
      using False kv by (simp add: update_conv split: option.splits)
  qed
qed

lemma extract_intelligence_keys:
  "map fst (extract_intelligence fa t) =
     [''bankAccounts'', ''upiIds'', ''phishingLinks'', ''phoneNumbers'',
      ''suspiciousKeywords'', ''emailAddresses'']"
  by (simp add: extract_intelligence_def Let_def)

lemma distinct_extract_intelligence: "distinct (map fst (extract_intelligence fa t))"
  by (simp add: extract_intelligence_keys)

lemma intel_handle:
  "intel (fst (handle cfg e body s))
     = merge_intel (intel s)
         (extract_intelligence (findall e) (strip (msg_text (req_message body))))"
  by (simp add: handle_def Let_def split: sum.splits)

section \<open>The life of a session\<close>

text \<open>
  A request raises exactly when its \<open>conversationHistory\<close> is null; then the
  changes made before the raise stay on the session only when the handler worked on the
  dictionary that \<open>sessions\<close> holds.
\<close>

lemma isl_handle:
  "isl (snd (snd (handle cfg e body s))) \<longleftrightarrow> conversationHistory body = None"
proof (cases "conversationHistory body")
  case None
  then show ?thesis by (simp add: handle_error)
next
  case (Some h)
  from handle_response [OF this, of cfg e s] Some show ?thesis by auto
qed

lemma life_Cons:
  "life cfg s ((e, body, in_process) # rest) =
     (fst (life cfg (if conversationHistory body = None \<and> \<not> in_process then s
                     else fst (handle cfg e body s)) rest),
      fst (snd (handle cfg e body s))
        @ snd (life cfg (if conversationHistory body = None \<and> \<not> in_process then s
                         else fst (handle cfg e body s)) rest))"
proof -
  obtain s' calls r where h: "handle cfg e body s = (s', calls, r)"
    by (cases "handle cfg e body s")
  from isl_handle [of cfg e body s] h
  have "isl r \<longleftrightarrow> conversationHistory body = None" by simp
  with h show ?thesis by (simp split: prod.splits)
qed

lemma extract_field_present:
  assumes "k \<in> set intel_fields"
  shows "map_of (extract_intelligence fa t) k \<noteq> None"
proof -
  from assms have "k \<in> fst ` set (extract_intelligence fa t)"
    using extract_intelligence_keys [of fa t] by (metis intel_fields_def set_map)
  then show ?thesis by (simp add: map_of_eq_None_iff)
qed

lemma handle_field:
  assumes "map_of (intel s) k = Some old" "k \<in> set intel_fields"
  shows "map_of (intel (fst (handle cfg e body s))) k
           = Some (list_set (old @ extracted_field k e body))"
proof -
  from extract_field_present [OF assms(2)]
  obtain found
    where f: "map_of (extract_intelligence (findall e) (strip (msg_text (req_message body)))) k
                = Some found"
    by blast
  then have "extracted_field k e body = found"
    by (simp add: extracted_field_def)
  with f assms(1) show ?thesis
    by (simp add: intel_handle map_of_merge_intel distinct_extract_intelligence)
qed

lemma handle_field_superset:
  assumes "map_of (intel s) k = Some old"
  shows "\<exists>new. map_of (intel (fst (handle cfg e body s))) k = Some new \<and> set old \<subseteq> set new"
  using assms
  by (auto simp: intel_handle map_of_merge_intel distinct_extract_intelligence list_set_def
           split: option.splits)

lemma life_field:
  assumes "map_of (intel s) k = Some old" "distinct old" "k \<in> set intel_fields"
  shows "\<exists>xs. map_of (intel (fst (life cfg s steps))) k = Some xs \<and> distinct xs
             \<and> set xs = set old \<union> seen k steps"
  using assms(1,2)
proof (induction steps arbitrary: s old)
  case Nil
  then show ?case by simp
next
  case (Cons step steps)
  obtain e body in_process where step: "step = (e, body, in_process)"
    by (cases step)
  show ?case
  proof (cases "conversationHistory body = None \<and> \<not> in_process")
    case True
    from Cons.IH [OF Cons.prems] True step show ?thesis
      by (simp add: life_Cons del: life.simps)
  next
    case False
    let ?new = "list_set (old @ extracted_field k e body)"
    have 1: "map_of (intel (fst (handle cfg e body s))) k = Some ?new"
      by (rule handle_field [OF Cons.prems(1) assms(3)])
    have 2: "distinct ?new" by (simp add: list_set_def)
    from Cons.IH [OF 1 2] obtain xs
      where "map_of (intel (fst (life cfg (fst (handle cfg e body s)) steps))) k = Some xs"
        "distinct xs" "set xs = set ?new \<union> seen k steps" by blast
    with False step show ?thesis
      by (auto simp add: life_Cons list_set_def simp del: life.simps)
  qed
qed

lemma life_keys: "map fst (intel (fst (life cfg s steps))) = map fst (intel s)"
proof (induction steps arbitrary: s)
  case Nil
  then show ?case by simp
next
  case (Cons step steps)
  obtain e body in_process where step: "step = (e, body, in_process)"
    by (cases step)
  show ?case
    by (simp add: step life_Cons Cons.IH intel_handle map_fst_merge_intel del: life.simps)
qed

section \<open>The reporter: bounded retries\<close>

lemma callback_loop_bounds:
  "callback_loop p a r = (b, n) \<Longrightarrow> a \<le> n \<and> n \<le> a + r"
proof (induction r arbitrary: a)
  case 0
  then show ?case by simp
next
  case (Suc r)
  show ?case
  proof (cases "p a = Status 200")
    case True
    with Suc.prems show ?thesis by simp
  next
    case False
    with Suc.prems have "callback_loop p (Suc a) r = (b, n)"
      by (simp split: post_result.splits if_splits)
    from Suc.IH [OF this] show ?thesis by simp
  qed
qed

lemma callback_loop_success:
  "callback_loop p a r = (True, n) \<Longrightarrow>
     a < n \<and> p (n - 1) = Status 200 \<and> (\<forall>i. a \<le> i \<and> i < n - 1 \<longrightarrow> p i \<noteq> Status 200)"
proof (induction r arbitrary: a)
  case 0
  then show ?case by simp
next
  case (Suc r)
  show ?case
  proof (cases "p a = Status 200")
    case True
    with Suc.prems show ?thesis by auto
  next
    case False
    with Suc.prems have rec: "callback_loop p (Suc a) r = (True, n)"
      by (simp split: post_result.splits if_splits)
    from Suc.IH [OF rec] have ih: "Suc a < n" "p (n - 1) = Status 200"
      "\<forall>i. Suc a \<le> i \<and> i < n - 1 \<longrightarrow> p i \<noteq> Status 200" by simp_all
    have "p i \<noteq> Status 200" if "a \<le> i" "i < n - 1" for i
    proof (cases "i = a")
      case True
      with False show ?thesis by simp
    next
      case False
      with that have "Suc a \<le> i" by simp
      with ih(3) that show ?thesis by simp
    qed
    with ih show ?thesis by simp
  qed
qed

lemma callback_loop_failure:
  "callback_loop p a r = (False, n) \<Longrightarrow>
     n = a + r \<and> (\<forall>i. a \<le> i \<and> i < a + r \<longrightarrow> p i \<noteq> Status 200)"
proof (induction r arbitrary: a)
  case 0
  then show ?case by auto
next
  case (Suc r)
  show ?case
  proof (cases "p a = Status 200")
    case True
    with Suc.prems show ?thesis by simp
  next
    case False
    with Suc.prems have rec: "callback_loop p (Suc a) r = (False, n)"
      by (simp split: post_result.splits if_splits)
    from Suc.IH [OF rec] have ih: "n = Suc a + r"
      "\<forall>i. Suc a \<le> i \<and> i < Suc a + r \<longrightarrow> p i \<noteq> Status 200" by simp_all
    have "p i \<noteq> Status 200" if "a \<le> i" "i < a + Suc r" for i
    proof (cases "i = a")
      case True
      with False show ?thesis by simp
    next
      case False
      with that have "Suc a \<le> i" "i < Suc a + r" by simp_all
      with ih(2) show ?thesis by simp
    qed
    with ih(1) show ?thesis by simp
  qed
qed

text \<open>
  Claim C7. \<open>send_final_callback\<close>, called with its default of 3 retries as \<open>chat\<close>
  calls it, makes at most 3 attempts. With no destination URL it returns failure
  without any attempt. With a URL it returns success exactly when one of the (at most
  three) attempts meets status 200; every other status, a timeout, a connection error
  and any other exception lead to the next attempt, and when none of the three attempts
  meets status 200 it returns failure after the third. A success is returned at the
  first attempt that meets status 200, and no attempt follows it.
\<close>

theorem send_final_callback_attempts:
  "snd (send_final_callback url requests_post 3) \<le> 3
   \<and> (url = [] \<longrightarrow> send_final_callback url requests_post 3 = (False, 0))
   \<and> (url \<noteq> [] \<longrightarrow>
        (fst (send_final_callback url requests_post 3)
           \<longleftrightarrow> (\<exists>i<3. requests_post i = Status 200)))
   \<and> (url \<noteq> [] \<longrightarrow> (\<forall>i<3. requests_post i \<noteq> Status 200) \<longrightarrow>
        send_final_callback url requests_post 3 = (False, 3))
   \<and> (\<forall>n. send_final_callback url requests_post 3 = (True, n) \<longrightarrow>
        0 < n \<and> requests_post (n - 1) = Status 200
        \<and> (\<forall>i<n - 1. requests_post i \<noteq> Status 200))"
proof (cases "url = []")
  case True
  then show ?thesis by (simp add: send_final_callback_def)
next
  case False
  obtain b n where bn: "callback_loop requests_post 0 3 = (b, n)"
    by (cases "callback_loop requests_post 0 3")
  have sfc: "send_final_callback url requests_post 3 = (b, n)"
    using False bn by (simp add: send_final_callback_def)
  from callback_loop_bounds [OF bn] have le: "n \<le> 3" by simp
  show ?thesis
  proof (cases b)
    case True
    with bn have "callback_loop requests_post 0 3 = (True, n)" by simp
    from callback_loop_success [OF this]
    have pos: "0 < n" and hit: "requests_post (n - 1) = Status 200"
      and before: "\<forall>i<n - 1. requests_post i \<noteq> Status 200" by simp_all
    from pos le have "n - 1 < 3" by simp
    with hit have ex: "\<exists>i<3. requests_post i = Status 200" by blast
    show ?thesis using sfc True le pos hit before ex \<open>url \<noteq> []\<close> by auto
  next
    case False
    with bn have "callback_loop requests_post 0 3 = (False, n)" by simp
    from callback_loop_failure [OF this]
    have n3: "n = 3" and none: "\<forall>i<3. requests_post i \<noteq> Status 200" by simp_all
    show ?thesis using sfc False n3 none \<open>url \<noteq> []\<close> by auto
  qed
qed

theorem send_final_callback_attempts_witness:
  "''https://collector'' \<noteq> []
   \<and> send_final_callback ''https://collector''
        (\<lambda>i::nat. if i = 2 then Status 200 else if i = 1 then Timeout else Status 503) 3
      = (True, 3)
   \<and> (\<exists>i<3. (\<lambda>i::nat. if i = 2 then Status 200 else if i = 1 then Timeout else Status 503) i
               = Status 200)"
proof -
  have run: "send_final_callback ''https://collector''
        (\<lambda>i::nat. if i = 2 then Status 200 else if i = 1 then Timeout else Status 503) 3
      = (True, 3)"
    by (simp add: send_final_callback_def numeral_3_eq_3)
  have url: "''https://collector'' \<noteq> []" by simp
  from send_final_callback_attempts
         [of "''https://collector''"
             "\<lambda>i::nat. if i = 2 then Status 200 else if i = 1 then Timeout else Status 503"]
  have "fst (send_final_callback ''https://collector''
        (\<lambda>i::nat. if i = 2 then Status 200 else if i = 1 then Timeout else Status 503) 3)
      \<longleftrightarrow> (\<exists>i<3. (\<lambda>i::nat. if i = 2 then Status 200 else if i = 1 then Timeout else Status 503) i
               = Status 200)"
    using url by blast
  with run url show ?thesis by simp
qed

section \<open>The maintenance sweep\<close>

lemma map_of_delete_all:
  "map_of (delete_all ks ss) k = (if k \<in> set ks then None else map_of ss k)"
  by (induction ks arbitrary: ss) (auto simp: delete_conv)

lemma to_delete_iff:
  "k \<in> set (to_delete ts now m ss) \<longleftrightarrow>
     (\<exists>s r. (k, s) \<in> set ss \<and> lastUpdated s = Some r \<and> ts now - ts r > of_int m)"
  by (induction ss) (auto simp: Let_def split: option.splits if_splits)

text \<open>
  What the sweep does, on any host: an entry goes exactly when it has a readable
  \<open>lastUpdated\<close> and the difference of the two converted readings exceeds
  \<open>max_age_seconds\<close>; every other entry stays as it is, and none is added.
\<close>

lemma cleanup_old_sessions_lookup:
  assumes "distinct (map fst ss)"
  shows "map_of (cleanup_old_sessions ts now m ss) k =
           (case map_of ss k of
              None \<Rightarrow> None
            | Some s \<Rightarrow> (case lastUpdated s of
                          None \<Rightarrow> Some s
                        | Some r \<Rightarrow> if ts now - ts r > of_int m then None else Some s))"
proof (cases "map_of ss k")
  case None
  then show ?thesis
    by (simp add: cleanup_old_sessions_def map_of_delete_all)
next
  case (Some s)
  with assms have mem: "\<And>s'. (k, s') \<in> set ss \<longleftrightarrow> s' = s"
    by (metis map_of_eq_Some_iff option.inject)
  have "k \<in> set (to_delete ts now m ss) \<longleftrightarrow>
          (\<exists>r. lastUpdated s = Some r \<and> ts now - ts r > of_int m)"
    by (simp add: to_delete_iff mem)
  with Some show ?thesis
    by (auto simp: cleanup_old_sessions_def map_of_delete_all split: option.splits)
qed

text \<open>
  On a host whose \<open>.timestamp()\<close> shifts every reading by the same amount (a zone
  without clock changes, UTC among them), the converted difference is the idle time,
  and the sweep removes exactly the sessions whose idle time exceeds the maximal age.
\<close>

lemma cleanup_old_sessions_fixed_offset:
  assumes "distinct (map fst ss)" and "\<And>r. ts r = r - offset"
  shows "map_of (cleanup_old_sessions ts now m ss) k =
           (case map_of ss k of
              None \<Rightarrow> None
            | Some s \<Rightarrow> (case idle_time now s of
                          None \<Rightarrow> Some s
                        | Some d \<Rightarrow> if d > of_int m then None else Some s))"
  using cleanup_old_sessions_lookup [OF assms(1), of ts now m k]
  by (simp add: assms(2) idle_time_def split: option.splits)

text \<open>
  Claim C8 (the sweep removes exactly the sessions whose idle time exceeds
  \<open>max_age_seconds\<close>, and none whose idle time is below it) fails on a host whose
  zone changes its clock. On a host in CET/CEST, a session last updated when the UTC
  clock read 2026-10-24T12:30:00 and swept with the default maximal age of 86400
  seconds when it reads 2026-10-25T12:00:00 has been idle for 84600 seconds, less than
  the maximal age; the two converted readings differ by 88200 seconds, and the sweep
  deletes the session.
\<close>

theorem cleanup_old_sessions_deletes_young_session:
  "idle_time 1792929600 (new_session ''s1'' 1792845000) = Some 84600
   \<and> (84600 :: rat) < of_int 86400
   \<and> cet_timestamp 1792929600 - cet_timestamp 1792845000 = 88200
   \<and> map_of [(''s1'', new_session ''s1'' 1792845000)] ''s1''
       = Some (new_session ''s1'' 1792845000)
   \<and> map_of (cleanup_old_sessions cet_timestamp 1792929600 86400
                [(''s1'', new_session ''s1'' 1792845000)]) ''s1'' = None"
  by (simp add: idle_time_def new_session_def cet_timestamp_def cleanup_old_sessions_def
                Let_def)

end
